theory Spec2Isabelle
  imports Main "HOL-Library.Word"
begin

section \<open>The history ring and the dispatcher of shell.c\<close>

text \<open>
  The program is one C file, \<^verbatim>\<open>shell.c\<close>. Its state is five globals: the indices
  \<^verbatim>\<open>ringStart\<close>, \<^verbatim>\<open>ringEnd\<close>, the counter \<^verbatim>\<open>ringCount\<close>, the next identifier
  \<^verbatim>\<open>cmdID\<close> and the array \<^verbatim>\<open>ringBuffer\<close> of \<^verbatim>\<open>history_t\<close>. The model passes them
  as a record. What the program prints and which processes it creates is returned as a
  list of events, in program order.

  Integers: the three index variables stay between -1 and 10 and are modelled as
  \<open>int\<close>. \<^verbatim>\<open>cmdID\<close> (an \<^verbatim>\<open>int\<close>) and the field \<^verbatim>\<open>commandID\<close> (an
  \<^verbatim>\<open>unsigned int\<close>) are 32-bit words: the assignment between the two keeps the bit
  pattern and \<^verbatim>\<open>cmdID++\<close> is taken to wrap around in two's complement (C leaves the
  overflow of an \<^verbatim>\<open>int\<close> undefined; it takes \<open>2 ^ 31 - 1\<close> recorded commands to get
  there).

  Strings: \<^verbatim>\<open>fgets(cmdLine, maxLen + 1, stdin)\<close> delivers lines of up to \<^verbatim>\<open>maxLen\<close>
  characters, but the array \<^verbatim>\<open>command[maxLen]\<close> of a slot holds a terminated text of at
  most \<^verbatim>\<open>maxLen - 1\<close>. For a longer text \<^verbatim>\<open>strcpy\<close> fills the array and writes on
  into \<^verbatim>\<open>commandID\<close>, which the next statement overwrites: the array is left without
  terminator, and reading the slot as a C string runs on into the bytes of the
  identifier. The field \<open>command\<close> of the model holds the text handed to \<^verbatim>\<open>strcpy\<close>;
  \<open>slot_text\<close> below is the text that is read back.
\<close>

subsection \<open>Data\<close>

abbreviation maxLen :: nat where "maxLen \<equiv> 1000"

abbreviation ringSize :: int where "ringSize \<equiv> 10"

record history_t =
  command :: string
  commandID :: "32 word"

record shell =
  ringStart :: int
  ringEnd :: int
  ringCount :: int
  cmdID :: "32 word"
  ringBuffer :: "int \<Rightarrow> history_t"

text \<open>The globals as C initialises them; the array is zero-filled static storage.\<close>

definition init_shell :: shell where
  "init_shell =
     \<lparr>ringStart = -1, ringEnd = 0, ringCount = 0, cmdID = 1,
      ringBuffer = (\<lambda>_. \<lparr>command = [], commandID = 0\<rparr>)\<rparr>"

text \<open>
  The bytes of \<^verbatim>\<open>commandID\<close> in memory, lowest first (the program runs on little-endian
  machines, and the field follows the array without padding), as far as a C string that
  runs into them reads: up to the first zero byte. If none of the four bytes is zero
  the string would run on into the next slot; this takes an identifier of at least
  \<open>2 ^ 24\<close> and is cut off here.
\<close>

definition id_tail :: "32 word \<Rightarrow> string" where
  "id_tail w =
     takeWhile (\<lambda>c. c \<noteq> CHR 0x00)
       [char_of (unat w), char_of (unat w div 256), char_of (unat w div 65536),
        char_of (unat w div 16777216)]"

text \<open>
  The text that \<^verbatim>\<open>printf\<close>, \<^verbatim>\<open>parseCommand\<close>, \<^verbatim>\<open>strcmp\<close> and \<^verbatim>\<open>strcpy\<close> read from
  the \<^verbatim>\<open>command\<close> array of a slot: the stored text when it left room for the
  terminator, else the \<^verbatim>\<open>maxLen\<close> characters of the array followed by the identifier's
  bytes.
\<close>

definition slot_text :: "history_t \<Rightarrow> string" where
  "slot_text e =
     (if length (command e) < maxLen then command e
      else take maxLen (command e) @ id_tail (commandID e))"

subsection \<open>Processes and output\<close>

text \<open>
  What a forked child does: either \<^verbatim>\<open>execvp\<close> succeeds and the child is the program
  with that argument vector, or it fails and the child prints a text and calls
  \<^verbatim>\<open>exit\<close> with a status.
\<close>

datatype child = Execvp "string list" | PrintfExit string int

text \<open>
  The events of the interpreter itself: a \<^verbatim>\<open>printf\<close> of a text, the \<^verbatim>\<open>printf\<close> of one
  history line (kept as its two arguments, the identifier and the command text; the
  format \<^verbatim>\<open>%d\<close> shows the identifier as a signed number), \<^verbatim>\<open>signal(SIGCHLD, handler)\<close>, a successful
  \<^verbatim>\<open>fork\<close> with what the child does, and \<^verbatim>\<open>waitpid\<close> on that child.
\<close>

datatype event =
    Printf string
  | PrintfEntry "32 word" string
  | SignalChld
  | Fork child
  | Waitpid

text \<open>A call either returns to the read loop or ends the interpreter with a status.\<close>

datatype 'a flow = Go 'a | Halt int

text \<open>
  The operating system's answers for one dispatch: whether \<^verbatim>\<open>fork\<close> succeeds, and
  whether \<^verbatim>\<open>execvp\<close> can locate and invoke the program of an argument vector.
\<close>

record os =
  fork_ok :: bool
  execvp_ok :: "string list \<Rightarrow> bool"

abbreviation newline :: string where "newline \<equiv> [CHR 0x0A]"

definition foreground :: "os \<Rightarrow> string list \<Rightarrow> string \<Rightarrow> event list \<times> unit flow" where
  "foreground sys cmdParsed cmdLine =
     (if \<not> fork_ok sys then ([Printf (''error in forking'' @ newline)], Halt (-1))
      else if \<not> execvp_ok sys cmdParsed
        then ([Fork (PrintfExit (cmdLine @ '': command not found'' @ newline) 0), Waitpid], Go ())
      else ([Fork (Execvp cmdParsed), Waitpid], Go ()))"

definition background :: "os \<Rightarrow> string list \<Rightarrow> string \<Rightarrow> event list \<times> unit flow" where
  "background sys cmdParsed cmdLine =
     (if \<not> fork_ok sys then ([SignalChld, Printf (''error in forking'' @ newline)], Halt (-1))
      else if \<not> execvp_ok sys cmdParsed
        then ([SignalChld, Fork (PrintfExit (cmdLine @ '': command not found'' @ newline) 0)], Go ())
      else ([SignalChld, Fork (Execvp cmdParsed)], Go ()))"

text \<open>
  The children of the interpreter, as far as \<^verbatim>\<open>waitpid\<close> sees them: a child is running,
  or it has terminated and waits to be reaped.
\<close>

datatype proc = Running | Terminated

text \<open>A call that may not come back: it returns a value or it blocks.\<close>

datatype 'a blocking = Returns 'a | Blocks

text \<open>
  \<^verbatim>\<open>waitpid(-1, NULL, 0)\<close> on the children of the caller: it reaps one terminated child
  and returns; without any child it returns at once (with -1); with running children
  only it blocks until one terminates. The result is the children that remain.
\<close>

definition waitpid_any :: "proc list \<Rightarrow> proc list blocking" where
  "waitpid_any children =
     (if Terminated \<in> set children then Returns (remove1 Terminated children)
      else if children = [] then Returns []
      else Blocks)"

text \<open>The signal handler: one call of \<^verbatim>\<open>waitpid\<close>, whatever the signal number.\<close>

definition handler :: "int \<Rightarrow> proc list \<Rightarrow> proc list blocking" where
  "handler sigNum children = waitpid_any children"

subsection \<open>The ring\<close>

definition indexer :: "int \<Rightarrow> int" where
  "indexer index = (let temp = index + 1 in if temp \<ge> ringSize then 0 else temp)"

text \<open>
  \<^verbatim>\<open>recHistory\<close>, branch by branch, with the inner test on \<^verbatim>\<open>ringCount == ringSize\<close>
  kept where the source has it. The two statements that fill the slot, \<^verbatim>\<open>strcpy\<close> and the
  assignment of \<^verbatim>\<open>commandID\<close>, are the update of its two fields: \<open>command\<close> takes the
  text handed to \<^verbatim>\<open>strcpy\<close>, of which the array keeps the first \<^verbatim>\<open>maxLen\<close> characters,
  and whatever \<^verbatim>\<open>strcpy\<close> wrote beyond the array is overwritten by the identifier. What
  the slot reads as afterwards is \<open>slot_text\<close>.
\<close>

definition recHistory :: "string \<Rightarrow> shell \<Rightarrow> shell" where
  "recHistory cmdLine st =
     (if ringCount st < ringSize then
        (let start = indexer (ringStart st);
             buf = (ringBuffer st)
                     (start := (ringBuffer st start)\<lparr>command := cmdLine, commandID := cmdID st\<rparr>);
             cnt = (if ringCount st = ringSize then ringCount st + 1 else ringCount st)
         in st\<lparr>ringStart := start, ringBuffer := buf, cmdID := cmdID st + 1,
                ringCount := cnt + 1\<rparr>)
      else
        (let start = indexer (ringStart st);
             end' = indexer (ringEnd st);
             buf = (ringBuffer st)
                     (start := (ringBuffer st start)\<lparr>command := cmdLine, commandID := cmdID st\<rparr>)
         in st\<lparr>ringStart := start, ringEnd := end', ringBuffer := buf,
                cmdID := cmdID st + 1\<rparr>))"

text \<open>
  The printing loop of \<^verbatim>\<open>history\<close>: \<open>index\<close> is the loop's index variable and the
  last argument the number of iterations left (\<^verbatim>\<open>ringCount - i\<close>).
\<close>

fun history_loop :: "(int \<Rightarrow> history_t) \<Rightarrow> int \<Rightarrow> nat \<Rightarrow> event list" where
  "history_loop buf index 0 = []"
| "history_loop buf index (Suc n) =
     PrintfEntry (commandID (buf index)) (slot_text (buf index))
       # history_loop buf (indexer index) n"

text \<open>The lines that loop prints when it starts in a given state.\<close>

definition history_lines :: "shell \<Rightarrow> event list" where
  "history_lines st = history_loop (ringBuffer st) (ringEnd st) (nat (ringCount st))"

definition history :: "string \<Rightarrow> shell \<Rightarrow> event list \<times> shell" where
  "history cmdLine st = (let st' = recHistory cmdLine st in (history_lines st', st'))"

subsection \<open>The dispatcher\<close>

definition programCall ::
  "os \<Rightarrow> string list \<Rightarrow> string \<Rightarrow> bool \<Rightarrow> shell \<Rightarrow> event list \<times> shell flow" where
  "programCall sys cmdParsed cmdLine bg st =
     (if cmdLine = ''history'' then (case history cmdLine st of (evs, st') \<Rightarrow> (evs, Go st'))
      else if \<not> bg then
        (case foreground sys cmdParsed cmdLine of
           (evs, Halt n) \<Rightarrow> (evs, Halt n)
         | (evs, Go _) \<Rightarrow> (evs, Go (recHistory cmdLine st)))
      else
        (case background sys cmdParsed cmdLine of
           (evs, Halt n) \<Rightarrow> (evs, Halt n)
         | (evs, Go _) \<Rightarrow> (evs, Go (recHistory cmdLine st))))"

text \<open>
  \<^verbatim>\<open>parseCommand\<close> is declared in \<^verbatim>\<open>parser.h\<close>, which is not part of the sources at
  hand. The dispatcher takes it as a parameter: a function from a line to its argument
  vector and its background flag.
\<close>

type_synonym parser = "string \<Rightarrow> string list \<times> bool"

text \<open>
  The search loop of \<^verbatim>\<open>callHist\<close>, with the same two loop arguments as above. The
  comparison \<^verbatim>\<open>commandID == cmdID\<close> converts the \<^verbatim>\<open>int\<close> argument to unsigned, which
  keeps its 32 bits.
\<close>

fun callHist_loop ::
  "parser \<Rightarrow> os \<Rightarrow> 32 word \<Rightarrow> string \<Rightarrow> shell \<Rightarrow> int \<Rightarrow> nat \<Rightarrow> event list \<times> shell flow" where
  "callHist_loop parseCommand sys cmdID' cmdLine st index 0 =
     ([Printf (cmdLine @ '': event not found'' @ newline)], Go st)"
| "callHist_loop parseCommand sys cmdID' cmdLine st index (Suc n) =
     (if commandID (ringBuffer st index) = cmdID' then
        (case parseCommand (slot_text (ringBuffer st index)) of
           (cmdParsed, bg) \<Rightarrow>
             programCall sys cmdParsed (slot_text (ringBuffer st index)) bg st)
      else callHist_loop parseCommand sys cmdID' cmdLine st (indexer index) n)"

definition callHist ::
  "parser \<Rightarrow> os \<Rightarrow> 32 word \<Rightarrow> string \<Rightarrow> shell \<Rightarrow> event list \<times> shell flow" where
  "callHist parseCommand sys cmdID' cmdLine st =
     callHist_loop parseCommand sys cmdID' cmdLine st (ringEnd st) (nat (ringCount st))"

text \<open>The C library's character classes \<^verbatim>\<open>isspace\<close> and \<^verbatim>\<open>isdigit\<close>.\<close>

definition isspace :: "char \<Rightarrow> bool" where
  "isspace c = (c \<in> set [CHR '' '', CHR 0x09, CHR 0x0A, CHR 0x0B, CHR 0x0C, CHR 0x0D])"

definition isdigit :: "char \<Rightarrow> bool" where
  "isdigit c = (48 \<le> (of_char c :: nat) \<and> (of_char c :: nat) \<le> 57)"

fun atoi_digits :: "int \<Rightarrow> string \<Rightarrow> int" where
  "atoi_digits acc [] = acc"
| "atoi_digits acc (c # cs) =
     (if isdigit c then atoi_digits (acc * 10 + (of_char c - 48)) cs else acc)"

text \<open>
  The C library's \<^verbatim>\<open>strtol\<close> in base 10: white space, an optional sign, then the
  longest run of decimal digits, 0 when there is no digit. A value outside the 64-bit
  \<^verbatim>\<open>long\<close> is replaced by \<^verbatim>\<open>LONG_MAX\<close> or \<^verbatim>\<open>LONG_MIN\<close>.
\<close>

definition strtol :: "string \<Rightarrow> int" where
  "strtol s =
     (let v = (case dropWhile isspace s of
                 [] \<Rightarrow> 0
               | c # cs \<Rightarrow>
                   if c = CHR ''-'' then - atoi_digits 0 cs
                   else if c = CHR ''+'' then atoi_digits 0 cs
                   else atoi_digits 0 (c # cs))
      in max (- (2 ^ 63)) (min (2 ^ 63 - 1) v))"

text \<open>
  \<^verbatim>\<open>atoi\<close> is \<^verbatim>\<open>strtol\<close> cast to \<^verbatim>\<open>int\<close>: the value of the low 32 bits, read in two's
  complement.
\<close>

definition atoi :: "string \<Rightarrow> int" where
  "atoi s = sint (of_int (strtol s) :: 32 word)"

text \<open>
  One iteration of the \<^verbatim>\<open>while\<close> loop of \<^verbatim>\<open>readCommand\<close>, on the line that
  \<^verbatim>\<open>cmdPrologue\<close> has read, up to the next call of \<^verbatim>\<open>cmdPrologue\<close>. The loop's condition
  has already found the line different from \<^verbatim>\<open>exit\<close>. \<^verbatim>\<open>atoi\<close> reads the copy of the
  first token from its second character on, which is the text of the token (for a token
  of \<^verbatim>\<open>maxLen\<close> characters the copy puts its terminator one byte past \<^verbatim>\<open>temp\<close>; that
  byte is left out here). The \<^verbatim>\<open>int\<close> that \<^verbatim>\<open>atoi\<close> returns is compared as unsigned in
  \<^verbatim>\<open>callHist\<close>, so it is passed as its 32 bits.
\<close>

definition dispatch :: "parser \<Rightarrow> os \<Rightarrow> string \<Rightarrow> shell \<Rightarrow> event list \<times> shell flow" where
  "dispatch parseCommand sys cmdLine st =
     (if cmdLine = ''history'' then (case history cmdLine st of (evs, st') \<Rightarrow> (evs, Go st'))
      else
        (case parseCommand cmdLine of
           (cmdParsed, bg) \<Rightarrow>
             (case cmdParsed of
                [] \<Rightarrow> ([], Go st)
              | temp # _ \<Rightarrow>
                  if temp \<noteq> [] \<and> hd temp = CHR ''!''
                  then callHist parseCommand sys (of_int (atoi (tl temp))) cmdLine st
                  else programCall sys cmdParsed cmdLine bg st)))"

text \<open>
  The loop of \<^verbatim>\<open>readCommand\<close> on the lines that successive calls of \<^verbatim>\<open>cmdPrologue\<close>
  deliver, each with the operating system's answers during its dispatch. The result on
  a list without \<^verbatim>\<open>exit\<close> is the state in which the loop asks for the next line.
\<close>

fun readCommand :: "parser \<Rightarrow> (os \<times> string) list \<Rightarrow> shell \<Rightarrow> event list \<times> shell flow" where
  "readCommand parseCommand [] st = ([], Go st)"
| "readCommand parseCommand ((sys, cmdLine) # rest) st =
     (if cmdLine = ''exit'' then ([], Halt 0)
      else
        (case dispatch parseCommand sys cmdLine st of
           (evs, Halt n) \<Rightarrow> (evs, Halt n)
         | (evs, Go st') \<Rightarrow>
             (case readCommand parseCommand rest st' of (evs', r) \<Rightarrow> (evs @ evs', r))))"

subsection \<open>The tokenizer\<close>

text \<open>
  Modelled from the spec: the splitting of a line on white space that \<^verbatim>\<open>parseCommand\<close>
  of the missing \<^verbatim>\<open>parser.h\<close> performs. \<open>tok\<close> is the token being read.
\<close>

fun split_ws :: "string \<Rightarrow> string \<Rightarrow> string list" where
  "split_ws tok [] = (if tok = [] then [] else [tok])"
| "split_ws tok (c # cs) =
     (if isspace c then (if tok = [] then split_ws [] cs else tok # split_ws [] cs)
      else split_ws (tok @ [c]) cs)"

text \<open>
  Modelled from the spec: \<^verbatim>\<open>parseCommand\<close> of \<^verbatim>\<open>parser.h\<close>, whose code is missing.
  It splits the line on white space into the argument vector; a trailing token
  \<^verbatim>\<open>&\<close> is stripped and sets the background flag; a line of white space only gives
  the empty vector. The theorems below hold for every parser; this one serves as the
  concrete parser of their instances.
\<close>

definition tokenize :: parser where
  "tokenize rawLine =
     (let toks = split_ws [] rawLine
      in if toks \<noteq> [] \<and> last toks = ''&'' then (butlast toks, True) else (toks, False))"

subsection \<open>Reading the ring\<close>

text \<open>
  The values the index variable takes in the loops of \<^verbatim>\<open>history\<close> and \<^verbatim>\<open>callHist\<close>:
  it starts at the given index and goes through \<open>indexer\<close> once per iteration.
\<close>

fun ring_walk :: "int \<Rightarrow> nat \<Rightarrow> int list" where
  "ring_walk index 0 = []"
| "ring_walk index (Suc n) = index # ring_walk (indexer index) n"

text \<open>The stored entries, oldest first: the slots from \<^verbatim>\<open>ringEnd\<close> on, \<^verbatim>\<open>ringCount\<close> of them.\<close>

definition ring_list :: "shell \<Rightarrow> history_t list" where
  "ring_list st = map (ringBuffer st) (ring_walk (ringEnd st) (nat (ringCount st)))"

text \<open>The state after recording the given command lines, in order, from the start.\<close>

definition appends :: "string list \<Rightarrow> shell" where
  "appends cmds = fold recHistory cmds init_shell"

text \<open>Every command line recorded so far with the identifier it received.\<close>

definition entries :: "string list \<Rightarrow> history_t list" where
  "entries cmds =
     map (\<lambda>k. \<lparr>command = cmds ! k, commandID = of_nat (k + 1)\<rparr>) [0..<length cmds]"

text \<open>
  The shape of the three index variables in every state the program reaches: while the
  ring fills, the oldest slot is 0 and the newest is the last one written; once it is
  full, the newest slot is the one just before the oldest.
\<close>

definition ring_ok :: "shell \<Rightarrow> bool" where
  "ring_ok st =
     (0 \<le> ringCount st \<and> ringCount st \<le> ringSize \<and> 0 \<le> ringEnd st \<and> ringEnd st < ringSize \<and>
      (ringCount st < ringSize \<longrightarrow> ringEnd st = 0 \<and> ringStart st = ringCount st - 1) \<and>
      (ringCount st = ringSize \<longrightarrow> ringStart st = (ringEnd st + 9) mod 10))"

subsection \<open>Instances\<close>

text \<open>
  Two operating systems for the concrete instances below: one where every program is
  found, one where only \<^verbatim>\<open>ls\<close> is.
\<close>

definition sys_found :: os where
  "sys_found = \<lparr>fork_ok = True, execvp_ok = (\<lambda>_. True)\<rparr>"


text \<open>
  A line of \<^verbatim>\<open>maxLen\<close> characters, the longest that \<^verbatim>\<open>fgets\<close> delivers:
  \<^verbatim>\<open>echo\<close> with one argument of 995 letters.
\<close>

definition long_line :: string where
  "long_line = ''echo '' @ replicate 995 (CHR ''a'')"

text \<open>
  Whether a text starts with a number as \<^verbatim>\<open>atoi\<close> reads one: white space, an optional
  sign, then at least one digit.
\<close>

definition leading_number :: "string \<Rightarrow> bool" where
  "leading_number s =
     (case dropWhile isspace s of
        [] \<Rightarrow> False
      | c # cs \<Rightarrow>
          if c = CHR ''-'' \<or> c = CHR ''+'' then cs \<noteq> [] \<and> isdigit (hd cs) else isdigit c)"

section \<open>Properties of the ring\<close>

lemma history_loop_walk:
  "history_loop buf index n =
     map (\<lambda>i. PrintfEntry (commandID (buf i)) (slot_text (buf i))) (ring_walk index n)"
  by (induction n arbitrary: index) simp_all

lemma history_lines_ring_list:
  "history_lines st = map (\<lambda>e. PrintfEntry (commandID e) (slot_text e)) (ring_list st)"
  by (simp add: history_lines_def ring_list_def history_loop_walk)

lemma ring_ok_init: "ring_ok init_shell"
  by (simp add: ring_ok_def init_shell_def)

lemma small_int_cases:
  "0 \<le> (i::int) \<Longrightarrow> i < 10 \<Longrightarrow>
     i = 0 \<or> i = 1 \<or> i = 2 \<or> i = 3 \<or> i = 4 \<or> i = 5 \<or> i = 6 \<or> i = 7 \<or> i = 8 \<or> i = 9"
  by arith

lemma ring_ok_recHistory: "ring_ok st \<Longrightarrow> ring_ok (recHistory c st)"
  unfolding ring_ok_def recHistory_def indexer_def Let_def
  by (auto dest: small_int_cases)

text \<open>While the ring is not full, recording adds the new entry at the end.\<close>

lemma ring_list_grow:
  assumes "ring_ok st" "ringCount st < 10"
  shows "ring_list (recHistory c st) = ring_list st @ [\<lparr>command = c, commandID = cmdID st\<rparr>]"
proof -
  from assms have c: "0 \<le> ringCount st" "ringCount st < 10" and e: "ringEnd st = 0"
    and s: "ringStart st = ringCount st - 1"
    by (simp_all add: ring_ok_def)
  from small_int_cases[OF c] show ?thesis
    by (elim disjE)
       (simp_all add: ring_list_def recHistory_def indexer_def Let_def e s eval_nat_numeral)
qed

text \<open>Once it is full, recording drops the first entry and adds the new one at the end.\<close>

lemma ring_list_full:
  assumes "ring_ok st" "ringCount st = 10"
  shows "ring_list (recHistory c st) =
           tl (ring_list st) @ [\<lparr>command = c, commandID = cmdID st\<rparr>]"
proof -
  from assms have e: "0 \<le> ringEnd st" "ringEnd st < 10"
    and s: "ringStart st = (ringEnd st + 9) mod 10"
    by (simp_all add: ring_ok_def)
  from small_int_cases[OF e] show ?thesis
    by (elim disjE)
       (simp_all add: ring_list_def recHistory_def indexer_def Let_def assms(2) s
                      eval_nat_numeral)
qed

lemma entries_snoc:
  "entries (cmds @ [c]) =
     entries cmds @ [\<lparr>command = c, commandID = of_nat (length cmds) + 1\<rparr>]"
  by (simp add: entries_def nth_append)

lemma length_entries: "length (entries cmds) = length cmds"
  by (simp add: entries_def)

lemma appends_snoc: "appends (cmds @ [c]) = recHistory c (appends cmds)"
  by (simp add: appends_def)

lemma cmdID_recHistory: "cmdID (recHistory c st) = cmdID st + 1"
  by (simp add: recHistory_def Let_def)

lemma ringCount_recHistory:
  "ringCount (recHistory c st) = (if ringCount st < 10 then ringCount st + 1 else ringCount st)"
  by (simp add: recHistory_def Let_def)

lemma ring_ok_appends: "ring_ok (appends cmds)"
  by (induction cmds rule: rev_induct)
     (simp_all add: appends_snoc ring_ok_recHistory, simp add: appends_def ring_ok_init)

lemma cmdID_appends: "cmdID (appends cmds) = of_nat (length cmds) + 1"
  by (induction cmds rule: rev_induct)
     (simp_all add: appends_snoc cmdID_recHistory, simp add: appends_def init_shell_def)

lemma ringCount_appends: "ringCount (appends cmds) = int (min (length cmds) 10)"
  by (induction cmds rule: rev_induct)
     (simp_all add: appends_snoc ringCount_recHistory,
      simp_all add: appends_def init_shell_def min_def)

text \<open>The ring holds the last ten of the recorded entries, or all of them.\<close>

lemma ring_list_appends: "ring_list (appends cmds) = drop (length cmds - 10) (entries cmds)"
proof (induction cmds rule: rev_induct)
  case Nil
  show ?case by (simp add: appends_def init_shell_def ring_list_def entries_def)
next
  case (snoc c cmds)
  let ?st = "appends cmds"
  have ok: "ring_ok ?st" by (rule ring_ok_appends)
  show ?case
  proof (cases "length cmds < 10")
    case True
    then have "ringCount ?st < 10" by (simp add: ringCount_appends)
    from ring_list_grow[OF ok this] True show ?thesis
      by (simp add: appends_snoc snoc.IH entries_snoc cmdID_appends)
  next
    case False
    then have full: "ringCount ?st = 10" by (simp add: ringCount_appends)
    have n: "Suc (length cmds - 10) = length cmds - 9" using False by arith
    have "tl (drop (length cmds - 10) (entries cmds)) =
            drop (Suc (length cmds - 10)) (entries cmds)"
      by (simp only: tl_drop drop_Suc)
    then have t: "tl (ring_list ?st) = drop (length cmds - 9) (entries cmds)"
      by (simp only: snoc.IH n)
    have "ring_list (recHistory c ?st) =
            tl (ring_list ?st) @ [\<lparr>command = c, commandID = cmdID ?st\<rparr>]"
      using ok full by (rule ring_list_full)
    then show ?thesis using False
      by (simp add: t appends_snoc entries_snoc cmdID_appends length_entries)
  qed
qed

lemma ring_list_appends_upt:
  "ring_list (appends cmds) =
     map (\<lambda>k. \<lparr>command = cmds ! k, commandID = of_nat (k + 1)\<rparr>)
       [length cmds - 10..<length cmds]"
  by (simp add: ring_list_appends entries_def drop_map)

lemma unat_of_nat_small: "n < 2 ^ 32 \<Longrightarrow> unat (of_nat n :: 32 word) = n"
  by (simp add: unat_of_nat)


lemma length_ring_walk: "length (ring_walk i n) = n"
  by (induction n arbitrary: i) simp_all

lemma length_ring_list: "length (ring_list st) = nat (ringCount st)"
  by (simp add: ring_list_def length_ring_walk)

lemma ring_list_recHistory:
  "ring_ok st \<Longrightarrow>
     ring_list (recHistory c st) =
       (if ringCount st < 10 then ring_list st else tl (ring_list st))
         @ [\<lparr>command = c, commandID = cmdID st\<rparr>]"
  using ring_list_grow [of st c] ring_list_full [of st c]
  by (auto simp: ring_ok_def)



lemma history_recHistory: "history c st = (history_lines (recHistory c st), recHistory c st)"
  by (simp add: history_def Let_def)

lemma dispatch_history:
  "dispatch pc sys ''history'' st =
     (history_lines (recHistory ''history'' st), Go (recHistory ''history'' st))"
  by (simp add: dispatch_def history_recHistory)





section \<open>Properties of the dispatcher\<close>

lemma callHist_loop_find:
  "callHist_loop pc sys n line st i k =
     (case find (\<lambda>e. commandID e = n) (map (ringBuffer st) (ring_walk i k)) of
        None \<Rightarrow> ([Printf (line @ '': event not found'' @ newline)], Go st)
      | Some e \<Rightarrow>
          (case pc (slot_text e) of
             (cmdParsed, bg) \<Rightarrow> programCall sys cmdParsed (slot_text e) bg st))"
  by (induction k arbitrary: i) simp_all

lemma callHist_find:
  "callHist pc sys n line st =
     (case find (\<lambda>e. commandID e = n) (ring_list st) of
        None \<Rightarrow> ([Printf (line @ '': event not found'' @ newline)], Go st)
      | Some e \<Rightarrow>
          (case pc (slot_text e) of
             (cmdParsed, bg) \<Rightarrow> programCall sys cmdParsed (slot_text e) bg st))"
  by (simp add: callHist_def ring_list_def callHist_loop_find)


lemma find_filter_hd:
  "find P xs = (case filter P xs of [] \<Rightarrow> None | x # _ \<Rightarrow> Some x)"
  by (induction xs) simp_all

lemma filter_Suc_upt:
  "filter (\<lambda>k. Suc k = m) [a..<b] = (if a < m \<and> m \<le> b then [m - 1] else [])"
  by (induction b) auto

lemma of_nat_eq_small:
  assumes "k < 2 ^ 32"
  shows "(of_nat k = (n :: 32 word)) = (k = unat n)"
proof
  assume "of_nat k = n"
  then have "unat n = unat (of_nat k :: 32 word)" by simp
  with assms show "k = unat n" by (simp add: unat_of_nat_small)
next
  assume "k = unat n"
  then show "of_nat k = n" by simp
qed

lemma filter_ring_list_appends:
  assumes "length cmds < 2 ^ 32"
  shows "filter (\<lambda>e. commandID e = n) (ring_list (appends cmds)) =
           (if length cmds - 10 < unat n \<and> unat n \<le> length cmds
            then [\<lparr>command = cmds ! (unat n - 1), commandID = n\<rparr>] else [])"
proof -
  let ?f = "\<lambda>k. \<lparr>command = cmds ! k, commandID = of_nat (k + 1)\<rparr>"
  let ?N = "length cmds"
  have "filter (\<lambda>k. of_nat (k + 1) = n) [?N - 10..<?N] = filter (\<lambda>k. Suc k = unat n) [?N - 10..<?N]"
  proof (rule filter_cong [OF refl])
    fix k assume "k \<in> set [?N - 10..<?N]"
    then have "k + 1 < 2 ^ 32" using assms by simp
    from of_nat_eq_small [OF this, of n] show "(of_nat (k + 1) = n) = (Suc k = unat n)" by simp
  qed
  then have "filter (\<lambda>e. commandID e = n) (ring_list (appends cmds)) =
          map ?f (if ?N - 10 < unat n \<and> unat n \<le> ?N then [unat n - 1] else [])"
    by (simp add: ring_list_appends_upt filter_map comp_def filter_Suc_upt)
  moreover have "of_nat (unat n - 1 + 1) = n" if "?N - 10 < unat n"
  proof -
    from that have "unat n - 1 + 1 = unat n" by arith
    then show ?thesis by simp
  qed
  ultimately show ?thesis by (simp del: of_nat_add of_nat_Suc)
qed

lemma callHist_not_stored:
  assumes "length cmds < 2 ^ 32" "\<not> (length cmds - 10 < unat n \<and> unat n \<le> length cmds)"
  shows "callHist pc sys n line (appends cmds) =
           ([Printf (line @ '': event not found'' @ newline)], Go (appends cmds))"
proof -
  have "filter (\<lambda>e. commandID e = n) (ring_list (appends cmds)) = []"
    using assms(2) by (simp only: filter_ring_list_appends [OF assms(1)] if_False)
  then show ?thesis by (simp add: callHist_find find_filter_hd)
qed

lemma callHist_stored:
  assumes "length cmds < 2 ^ 32" "length cmds - 10 < unat n" "unat n \<le> length cmds"
  shows "callHist pc sys n line (appends cmds) =
           (case pc (slot_text \<lparr>command = cmds ! (unat n - 1), commandID = n\<rparr>) of
              (cmdParsed, bg) \<Rightarrow>
                programCall sys cmdParsed
                  (slot_text \<lparr>command = cmds ! (unat n - 1), commandID = n\<rparr>) bg (appends cmds))"
proof -
  have "filter (\<lambda>e. commandID e = n) (ring_list (appends cmds)) =
          [\<lparr>command = cmds ! (unat n - 1), commandID = n\<rparr>]"
    using assms(2,3) by (simp only: filter_ring_list_appends [OF assms(1)] simp_thms if_True)
  then show ?thesis by (simp add: callHist_find find_filter_hd)
qed

lemma slot_text_short: "length (command e) < maxLen \<Longrightarrow> slot_text e = command e"
  by (simp add: slot_text_def)

lemma id_tail_1: "id_tail 1 = [CHR 0x01]"
  by (simp add: id_tail_def char_of_def bit_Suc_0_iff)

lemma dispatch_bang:
  "pc line = ((CHR ''!'' # ds) # rest, b) \<Longrightarrow> line \<noteq> ''history'' \<Longrightarrow>
     dispatch pc sys line st = callHist pc sys (of_int (atoi ds)) line st"
  by (simp add: dispatch_def)

lemma dispatch_blank:
  "fst (pc line) = [] \<Longrightarrow> line \<noteq> ''history'' \<Longrightarrow> dispatch pc sys line st = ([], Go st)"
  by (cases "pc line") (simp add: dispatch_def)

lemma dispatch_plain:
  "pc line = (cmdParsed, bg) \<Longrightarrow> cmdParsed \<noteq> [] \<Longrightarrow>
   \<not> (hd cmdParsed \<noteq> [] \<and> hd (hd cmdParsed) = CHR ''!'') \<Longrightarrow> line \<noteq> ''history'' \<Longrightarrow>
     dispatch pc sys line st = programCall sys cmdParsed line bg st"
  by (cases cmdParsed) (auto simp: dispatch_def)

lemma programCall_history:
  "programCall sys cmdParsed ''history'' bg st =
     (history_lines (recHistory ''history'' st), Go (recHistory ''history'' st))"
  by (simp add: programCall_def history_recHistory)

lemma programCall_Go:
  "programCall sys cmdParsed cmdLine bg st = (evs, Go st') \<Longrightarrow> st' = recHistory cmdLine st"
  by (auto simp: programCall_def history_recHistory foreground_def background_def
           split: if_splits)

lemma programCall_fork_ok:
  "fork_ok sys \<Longrightarrow> snd (programCall sys cmdParsed cmdLine bg st) = Go (recHistory cmdLine st)"
  by (simp add: programCall_def history_recHistory foreground_def background_def)

lemma callHist_loop_Go:
  "callHist_loop pc sys n line st i k = (evs, Go st') \<Longrightarrow> st' = st \<or> (\<exists>t. st' = recHistory t st)"
  by (induction k arbitrary: i) (auto split: if_splits prod.splits dest: programCall_Go)

lemma dispatch_Go:
  "dispatch pc sys line st = (evs, Go st') \<Longrightarrow> st' = st \<or> (\<exists>t. st' = recHistory t st)"
  by (auto simp: dispatch_def history_recHistory callHist_def
           split: if_splits prod.splits list.splits dest: programCall_Go callHist_loop_Go)

lemma atoi_digits_stop: "cs = [] \<or> \<not> isdigit (hd cs) \<Longrightarrow> atoi_digits acc cs = acc"
  by (cases cs) auto

lemma strtol_no_number: "\<not> leading_number s \<Longrightarrow> strtol s = 0"
proof (cases "dropWhile isspace s")
  case Nil
  show ?thesis unfolding strtol_def Nil by simp
next
  case (Cons c cs)
  assume n: "\<not> leading_number s"
  show ?thesis
  proof (cases "c = CHR ''-'' \<or> c = CHR ''+''")
    case True
    with n have "cs = [] \<or> \<not> isdigit (hd cs)" unfolding leading_number_def Cons by simp
    then have "atoi_digits 0 cs = 0" by (rule atoi_digits_stop)
    with True show ?thesis unfolding strtol_def Cons by auto
  next
    case False
    with n have "\<not> isdigit c" unfolding leading_number_def Cons by simp
    with False show ?thesis unfolding strtol_def Cons by simp
  qed
qed

lemma atoi_no_number: "\<not> leading_number s \<Longrightarrow> atoi s = 0"
  by (simp add: atoi_def strtol_no_number)


lemma split_ws_blank: "list_all isspace line \<Longrightarrow> split_ws [] line = []"
  by (induction line) simp_all

lemma tokenize_blank: "list_all isspace line \<Longrightarrow> fst (tokenize line) = []"
  by (simp add: tokenize_def split_ws_blank)

lemma blank_not_history: "list_all isspace line \<Longrightarrow> line \<noteq> ''history''"
  by (auto simp: isspace_def)




lemma tokenize_bangabc: "tokenize ''!abc'' = ([''!abc''], False)"
  by (simp add: tokenize_def isspace_def)


lemma callHist_absent:
  "\<forall>e \<in> set (ring_list st). commandID e \<noteq> n \<Longrightarrow>
     callHist pc sys n line st = ([Printf (line @ '': event not found'' @ newline)], Go st)"
proof -
  assume "\<forall>e \<in> set (ring_list st). commandID e \<noteq> n"
  then have "find (\<lambda>e. commandID e = n) (ring_list st) = None"
    by (simp add: find_None_iff)
  then show ?thesis by (simp add: callHist_find)
qed


text \<open>
  The theorems below speak of the states \<open>appends cmds\<close>. These are all the states of
  the interpreter: whenever the read loop has consumed its input and is still running,
  its state is the result of recording some list of commands.
\<close>

lemma init_shell_appends: "init_shell = appends []"
  by (simp add: appends_def)

lemma readCommand_appends:
  "readCommand pc inputs (appends cmds) = (evs, Go st') \<Longrightarrow> \<exists>later. st' = appends (cmds @ later)"
proof (induction inputs arbitrary: cmds evs)
  case Nil
  then have "st' = appends (cmds @ [])" by simp
  then show ?case by blast
next
  case (Cons input inputs)
  obtain sys line where input: "input = (sys, line)" by (cases input)
  obtain e1 r1 where d: "dispatch pc sys line (appends cmds) = (e1, r1)"
    by (cases "dispatch pc sys line (appends cmds)")
  from Cons.prems input have ne: "line \<noteq> ''exit''" by (auto split: if_splits)
  show ?case
  proof (cases r1)
    case (Halt n)
    with Cons.prems input d ne show ?thesis by simp
  next
    case (Go s1)
    with d have "s1 = appends cmds \<or> (\<exists>t. s1 = recHistory t (appends cmds))"
      using dispatch_Go by blast
    then obtain mid where s1: "s1 = appends (cmds @ mid)"
    proof
      assume "s1 = appends cmds"
      then have "s1 = appends (cmds @ [])" by simp
      then show ?thesis using that by blast
    next
      assume "\<exists>t. s1 = recHistory t (appends cmds)"
      then obtain t where "s1 = appends (cmds @ [t])" by (auto simp: appends_snoc)
      then show ?thesis using that by blast
    qed
    obtain e2 where "readCommand pc inputs (appends (cmds @ mid)) = (e2, Go st')"
      using Cons.prems input d ne Go s1 by (auto split: prod.splits)
    from Cons.IH [OF this] obtain later where "st' = appends ((cmds @ mid) @ later)" by blast
    then have "st' = appends (cmds @ (mid @ later))" by simp
    then show ?thesis by blast
  qed
qed

lemma readCommand_reaches:
  "readCommand pc inputs init_shell = (evs, Go st') \<Longrightarrow> \<exists>cmds. st' = appends cmds"
  using readCommand_appends [of pc inputs "[]" evs st'] by (simp add: init_shell_appends)

lemma split_ws_nospace:
  "\<forall>c \<in> set s. \<not> isspace c \<Longrightarrow> split_ws tok s = (if tok @ s = [] then [] else [tok @ s])"
  by (induction s arbitrary: tok) auto

lemma length_long_line: "length long_line = 1000"
  by (simp add: long_line_def)

lemma long_line_not_history: "long_line \<noteq> ''history''" "long_line @ [c] \<noteq> ''history''"
  by (simp_all add: long_line_def)

lemma long_line_not_exit: "long_line \<noteq> ''exit''"
  by (simp add: long_line_def)

lemma tokenize_long_line: "tokenize long_line = ([''echo'', replicate 995 (CHR ''a'')], False)"
proof -
  have "split_ws [] (replicate 995 (CHR ''a'')) = [replicate 995 (CHR ''a'')]"
    by (simp add: split_ws_nospace isspace_def)
  then have "split_ws [] long_line = [''echo'', replicate 995 (CHR ''a'')]"
    by (simp add: long_line_def isspace_def)
  moreover have "replicate 995 (CHR ''a'') \<noteq> ''&''"
  proof -
    have "length (replicate 995 (CHR ''a'')) \<noteq> length ''&''" by simp
    then show ?thesis by fastforce
  qed
  ultimately show ?thesis by (simp add: tokenize_def)
qed

lemma tokenize_long_line_tail:
  "tokenize (long_line @ [CHR 0x01]) = ([''echo'', replicate 995 (CHR ''a'') @ [CHR 0x01]], False)"
proof -
  have "split_ws [] (replicate 995 (CHR ''a'') @ [CHR 0x01]) = [replicate 995 (CHR ''a'') @ [CHR 0x01]]"
    by (subst split_ws_nospace) (auto simp: isspace_def)
  then have "split_ws [] (long_line @ [CHR 0x01]) = [''echo'', replicate 995 (CHR ''a'') @ [CHR 0x01]]"
    by (simp add: long_line_def isspace_def)
  moreover have "replicate 995 (CHR ''a'') @ [CHR 0x01] \<noteq> ''&''"
  proof -
    have "length (replicate 995 (CHR ''a'') @ [CHR 0x01]) \<noteq> length ''&''" by simp
    then show ?thesis by fastforce
  qed
  ultimately show ?thesis by (simp add: tokenize_def)
qed

lemma slot_text_long_line:
  "slot_text \<lparr>command = long_line, commandID = 1\<rparr> = long_line @ [CHR 0x01]"
  by (simp add: slot_text_def id_tail_1 length_long_line)

lemma ring_list_one: "ring_list (appends [c]) = [\<lparr>command = c, commandID = 1\<rparr>]"
  by (simp add: ring_list_appends_upt)

lemma callHist_long_line:
  "callHist tokenize sys_found 1 line (appends [long_line]) =
     programCall sys_found [''echo'', replicate 995 (CHR ''a'') @ [CHR 0x01]]
       (long_line @ [CHR 0x01]) False (appends [long_line])"
  by (simp add: callHist_find ring_list_one slot_text_long_line tokenize_long_line_tail)

lemma programCall_nonempty: "fst (programCall sys cmdParsed cmdLine bg (appends cmds)) \<noteq> []"
proof (cases "cmdLine = ''history''")
  case True
  have "ring_list (recHistory ''history'' (appends cmds)) \<noteq> []"
    by (simp add: ring_list_recHistory [OF ring_ok_appends])
  then show ?thesis using True
    by (simp add: programCall_history history_lines_ring_list)
next
  case False
  then show ?thesis
    by (simp add: programCall_def foreground_def background_def)
qed

lemma callHist_nonempty: "fst (callHist pc sys n line (appends cmds)) \<noteq> []"
  by (simp add: callHist_find programCall_nonempty split: option.splits prod.splits)








lemma count_remove1:
  "x \<in> set xs \<Longrightarrow> count_list (remove1 x xs) x + 1 = count_list xs x"
  by (induction xs) auto

lemma count_remove1_other:
  "y \<noteq> x \<Longrightarrow> count_list (remove1 x xs) y = count_list xs y"
  by (induction xs) auto

text \<open>
  For lines shorter than \<^verbatim>\<open>maxLen\<close> the slots read back as they were written: the
  listing shows exactly the recorded lines, and a replay is the dispatch of the stored
  line.
\<close>

lemma listing_of_short_lines:
  assumes "\<forall>c \<in> set cmds. length c < maxLen"
  shows "history_lines (appends cmds) =
           map (\<lambda>k. PrintfEntry (of_nat (k + 1)) (cmds ! k)) [length cmds - 10..<length cmds]"
proof -
  have "slot_text \<lparr>command = cmds ! k, commandID = of_nat (k + 1)\<rparr> = cmds ! k"
    if "k \<in> set [length cmds - 10..<length cmds]" for k
    using that assms by (simp add: slot_text_def)
  then show ?thesis
    by (simp add: history_lines_ring_list ring_list_appends_upt comp_def)
qed

lemma replay_of_short_line:
  assumes "length cmds < 2 ^ 32" "k < length cmds" "length cmds - 10 \<le> k"
    and "length (cmds ! k) < maxLen"
    and "pc line = ((CHR ''!'' # ds) # rest, b)" "line \<noteq> ''history''" "atoi ds = int (k + 1)"
    and "pc (cmds ! k) = (cmdParsed, bg)" "cmdParsed \<noteq> []"
    and "\<not> (hd cmdParsed \<noteq> [] \<and> hd (hd cmdParsed) = CHR ''!'')"
  shows "dispatch pc sys line (appends cmds) = dispatch pc sys (cmds ! k) (appends cmds) \<and>
         dispatch pc sys line (appends cmds) = programCall sys cmdParsed (cmds ! k) bg (appends cmds) \<and>
         (fork_ok sys \<longrightarrow>
            snd (dispatch pc sys line (appends cmds)) = Go (recHistory (cmds ! k) (appends cmds)) \<and>
            last (ring_list (recHistory (cmds ! k) (appends cmds))) =
              \<lparr>command = cmds ! k, commandID = cmdID (appends cmds)\<rparr>)"
proof -
  let ?st = "appends cmds"
  let ?n = "of_nat (k + 1) :: 32 word"
  have small: "k + 1 < 2 ^ 32" using assms(1,2) by simp
  have u: "unat ?n = k + 1" using small by (rule unat_of_nat_small)
  have r1: "length cmds - 10 < unat ?n" unfolding u using assms(3) by arith
  have r2: "unat ?n \<le> length cmds" unfolding u using assms(2) by arith
  have k: "unat ?n - 1 = k" unfolding u by simp
  have n: "(of_int (atoi ds) :: 32 word) = ?n" by (simp add: assms(7))
  have t: "slot_text \<lparr>command = cmds ! k, commandID = ?n\<rparr> = cmds ! k"
    using assms(4) by (simp add: slot_text_def)
  have "dispatch pc sys line ?st = callHist pc sys ?n line ?st"
    using dispatch_bang [of pc line ds rest b sys ?st, OF assms(5,6)] by (simp only: n)
  also have "\<dots> = (case pc (slot_text \<lparr>command = cmds ! (unat ?n - 1), commandID = ?n\<rparr>) of
       (cmdParsed, bg) \<Rightarrow>
         programCall sys cmdParsed
           (slot_text \<lparr>command = cmds ! (unat ?n - 1), commandID = ?n\<rparr>) bg ?st)"
    using assms(1) r1 r2 by (rule callHist_stored)
  also have "\<dots> = programCall sys cmdParsed (cmds ! k) bg ?st"
    unfolding k t assms(8) by simp
  finally have a: "dispatch pc sys line ?st = programCall sys cmdParsed (cmds ! k) bg ?st" .
  have b: "dispatch pc sys (cmds ! k) ?st = programCall sys cmdParsed (cmds ! k) bg ?st"
  proof (cases "cmds ! k = ''history''")
    case True
    then show ?thesis by (simp add: dispatch_history programCall_history)
  next
    case False
    with assms(8,9,10) show ?thesis by (rule dispatch_plain)
  qed
  have c: "snd (dispatch pc sys line ?st) = Go (recHistory (cmds ! k) ?st)" if "fork_ok sys"
    using that by (simp add: a programCall_fork_ok)
  have d: "last (ring_list (recHistory (cmds ! k) ?st)) = \<lparr>command = cmds ! k, commandID = cmdID ?st\<rparr>"
    by (simp add: ring_list_recHistory [OF ring_ok_appends])
  from a b c d show ?thesis by simp
qed

section \<open>The claims\<close>



text \<open>
  C2 fails on the code for a line of \<^verbatim>\<open>maxLen\<close> characters, which the comment at
  \<^verbatim>\<open>maxLen\<close> allows and \<^verbatim>\<open>fgets\<close> delivers: recorded as the first command, it is
  listed as its 1000 characters followed by the byte 1 of its identifier, in the state
  after recording and in the output of a \<^verbatim>\<open>history\<close> line that follows it.
\<close>

theorem long_line_listing:
  "length long_line = maxLen \<and>
   history_lines (appends [long_line]) = [PrintfEntry 1 (long_line @ [CHR 0x01])] \<and>
   readCommand tokenize [(sys_found, long_line), (sys_found, ''history'')] init_shell =
     ([Fork (Execvp [''echo'', replicate 995 (CHR ''a'')]), Waitpid,
       PrintfEntry 1 (long_line @ [CHR 0x01]), PrintfEntry 2 ''history''],
      Go (appends [long_line, ''history'']))"
proof -
  have a: "history_lines (appends [long_line]) = [PrintfEntry 1 (long_line @ [CHR 0x01])]"
    by (simp add: history_lines_ring_list ring_list_one slot_text_long_line)
  have d1: "dispatch tokenize sys_found long_line init_shell =
      ([Fork (Execvp [''echo'', replicate 995 (CHR ''a'')]), Waitpid], Go (appends [long_line]))"
    using long_line_not_history(1)
    by (simp add: dispatch_def tokenize_long_line programCall_def foreground_def sys_found_def
                  appends_def)
  have l2: "ring_list (appends [long_line, ''history'']) =
      [\<lparr>command = long_line, commandID = 1\<rparr>, \<lparr>command = ''history'', commandID = 2\<rparr>]"
    by (simp add: ring_list_appends_upt upt_rec)
  have d2: "dispatch tokenize sys_found ''history'' (appends [long_line]) =
      ([PrintfEntry 1 (long_line @ [CHR 0x01]), PrintfEntry 2 ''history''],
       Go (appends [long_line, ''history'']))"
  proof -
    have s: "recHistory ''history'' (appends [long_line]) = appends [long_line, ''history'']"
      using appends_snoc [of "[long_line]" "''history''"] by simp
    have h: "slot_text \<lparr>command = ''history'', commandID = 2\<rparr> = ''history''"
      by (simp add: slot_text_def)
    show ?thesis
      by (simp add: dispatch_history s history_lines_ring_list l2 slot_text_long_line h)
  qed
  have b: "readCommand tokenize [(sys_found, long_line), (sys_found, ''history'')] init_shell =
     ([Fork (Execvp [''echo'', replicate 995 (CHR ''a'')]), Waitpid,
       PrintfEntry 1 (long_line @ [CHR 0x01]), PrintfEntry 2 ''history''],
      Go (appends [long_line, ''history'']))"
    using long_line_not_exit by (simp add: d1 d2)
  from a b show ?thesis by (simp add: length_long_line)
qed

text \<open>
  C3 fails on the code for the same line: stored under identifier 1, it is replayed by
  \<^verbatim>\<open>!1\<close> with the byte 1 added to the last argument and to the recorded text, while
  the direct dispatch of the line runs and records the line itself.
\<close>

theorem long_line_replay:
  "dispatch tokenize sys_found ''!1'' (appends [long_line]) =
     ([Fork (Execvp [''echo'', replicate 995 (CHR ''a'') @ [CHR 0x01]]), Waitpid],
      Go (recHistory (long_line @ [CHR 0x01]) (appends [long_line]))) \<and>
   dispatch tokenize sys_found long_line (appends [long_line]) =
     ([Fork (Execvp [''echo'', replicate 995 (CHR ''a'')]), Waitpid],
      Go (recHistory long_line (appends [long_line]))) \<and>
   dispatch tokenize sys_found ''!1'' (appends [long_line]) \<noteq>
     dispatch tokenize sys_found long_line (appends [long_line])"
proof -
  let ?st = "appends [long_line]"
  have t1: "tokenize ''!1'' = ([''!1''], False)" by (simp add: tokenize_def isspace_def)
  have a1: "atoi ''1'' = 1" by (simp add: atoi_def strtol_def isspace_def isdigit_def)
  have "dispatch tokenize sys_found ''!1'' ?st = callHist tokenize sys_found 1 ''!1'' ?st"
    by (simp add: dispatch_def t1 a1)
  also have "\<dots> = programCall sys_found [''echo'', replicate 995 (CHR ''a'') @ [CHR 0x01]]
       (long_line @ [CHR 0x01]) False ?st"
    by (rule callHist_long_line)
  also have "\<dots> = ([Fork (Execvp [''echo'', replicate 995 (CHR ''a'') @ [CHR 0x01]]), Waitpid],
      Go (recHistory (long_line @ [CHR 0x01]) ?st))"
    using long_line_not_history(2) by (simp add: programCall_def foreground_def sys_found_def)
  finally have r: "dispatch tokenize sys_found ''!1'' ?st =
      ([Fork (Execvp [''echo'', replicate 995 (CHR ''a'') @ [CHR 0x01]]), Waitpid],
       Go (recHistory (long_line @ [CHR 0x01]) ?st))" .
  have d: "dispatch tokenize sys_found long_line ?st =
      ([Fork (Execvp [''echo'', replicate 995 (CHR ''a'')]), Waitpid], Go (recHistory long_line ?st))"
    using long_line_not_history(1)
    by (simp add: dispatch_def tokenize_long_line programCall_def foreground_def sys_found_def)
  from r d show ?thesis by simp
qed

text \<open>
  C4. Dispatching the line \<^verbatim>\<open>history\<close> records that line first and prints the listing
  of the new state, whose last line is the invocation itself. A second \<^verbatim>\<open>history\<close>
  right after it prints a listing that ends with the first invocation's entry followed
  by its own, under two different identifiers.
\<close>

theorem history_lists_itself:
  "dispatch pc sys ''history'' (appends cmds) =
     (history_lines (recHistory ''history'' (appends cmds)),
      Go (recHistory ''history'' (appends cmds))) \<and>
   last (history_lines (recHistory ''history'' (appends cmds))) =
     PrintfEntry (cmdID (appends cmds)) ''history'' \<and>
   dispatch pc sys ''history'' (recHistory ''history'' (appends cmds)) =
     (history_lines (recHistory ''history'' (recHistory ''history'' (appends cmds))),
      Go (recHistory ''history'' (recHistory ''history'' (appends cmds)))) \<and>
   (\<exists>older. history_lines (recHistory ''history'' (recHistory ''history'' (appends cmds))) =
      older @ [PrintfEntry (cmdID (appends cmds)) ''history'',
               PrintfEntry (cmdID (appends cmds) + 1) ''history'']) \<and>
   cmdID (appends cmds) \<noteq> cmdID (appends cmds) + 1"
proof -
  let ?h = "''history''"
  let ?st = "appends cmds"
  let ?s1 = "recHistory ?h ?st"
  let ?s2 = "recHistory ?h ?s1"
  let ?p = "\<lambda>e. PrintfEntry (commandID e) (slot_text e)"
  have ok: "ring_ok ?st" by (rule ring_ok_appends)
  then have ok1: "ring_ok ?s1" by (rule ring_ok_recHistory)
  define P where "P = (if ringCount ?st < 10 then ring_list ?st else tl (ring_list ?st))"
  have l1: "ring_list ?s1 = P @ [\<lparr>command = ?h, commandID = cmdID ?st\<rparr>]"
    unfolding P_def using ok by (rule ring_list_recHistory)
  have a: "last (history_lines ?s1) = PrintfEntry (cmdID ?st) ?h"
    by (simp add: history_lines_ring_list l1 slot_text_def)
  have l2: "ring_list ?s2 =
      (if ringCount ?s1 < 10 then ring_list ?s1 else tl (ring_list ?s1))
        @ [\<lparr>command = ?h, commandID = cmdID ?s1\<rparr>]"
    using ok1 by (rule ring_list_recHistory)
  have "\<exists>Q. (if ringCount ?s1 < 10 then ring_list ?s1 else tl (ring_list ?s1)) =
          Q @ [\<lparr>command = ?h, commandID = cmdID ?st\<rparr>]"
  proof (cases "ringCount ?s1 < 10")
    case True
    then show ?thesis using l1 by auto
  next
    case False
    then have "ringCount ?s1 = 10" using ok1 by (simp add: ring_ok_def)
    then have "length (ring_list ?s1) = 10" by (simp add: length_ring_list)
    then have "P \<noteq> []" using l1 by auto
    then have "tl (ring_list ?s1) = tl P @ [\<lparr>command = ?h, commandID = cmdID ?st\<rparr>]"
      by (simp add: l1)
    with False show ?thesis by auto
  qed
  then obtain Q where "ring_list ?s2 =
      Q @ [\<lparr>command = ?h, commandID = cmdID ?st\<rparr>, \<lparr>command = ?h, commandID = cmdID ?s1\<rparr>]"
    using l2 by auto
  then have "history_lines ?s2 =
      map ?p Q @ [PrintfEntry (cmdID ?st) ?h, PrintfEntry (cmdID ?st + 1) ?h]"
    by (simp add: history_lines_ring_list cmdID_recHistory slot_text_def)
  then have b: "\<exists>older. history_lines ?s2 =
      older @ [PrintfEntry (cmdID ?st) ?h, PrintfEntry (cmdID ?st + 1) ?h]"
    by blast
  have c: "cmdID ?st \<noteq> cmdID ?st + 1" by simp
  from a b c show ?thesis by (simp add: dispatch_history)
qed




text \<open>
  C6, as stated, fails: the line \<^verbatim>\<open>!abc\<close> has no integer after the \<^verbatim>\<open>!\<close>, and
  dispatching it in the initial state prints \<^verbatim>\<open>!abc: event not found\<close>.
\<close>

theorem bang_not_silent:
  "dispatch tokenize sys_found ''!abc'' init_shell =
     ([Printf (''!abc: event not found'' @ newline)], Go init_shell) \<and>
   fst (dispatch tokenize sys_found ''!abc'' init_shell) \<noteq> []"
  by (simp add: dispatch_def tokenize_def isspace_def atoi_def strtol_def isdigit_def
                callHist_def init_shell_def)

text \<open>
  C6, amended. A line for which the parser returns the empty argument vector is a
  silent no-op: no event, the state unchanged, the loop goes on; with the tokenizer of
  the spec every line of white space only is such a line. A line whose first token
  starts with \<^verbatim>\<open>!\<close> is never silent: it is handed to \<^verbatim>\<open>callHist\<close> with the value
  \<^verbatim>\<open>atoi\<close> gives for the rest of the token, whatever follows the number. If no stored
  entry carries that value, the dispatch prints \<^verbatim>\<open><line>: event not found\<close> and records
  nothing; if one does, the text of such an entry is run. When the rest of the token
  does not start with a number the value is 0, which no entry carries.
\<close>

theorem bang_and_blank_lines:
  "(fst (pc line) = [] \<and> line \<noteq> ''history'' \<longrightarrow> dispatch pc sys line st = ([], Go st)) \<and>
   (list_all isspace line \<longrightarrow> dispatch tokenize sys line st = ([], Go st)) \<and>
   (pc line = ((CHR ''!'' # ds) # rest, b) \<and> line \<noteq> ''history'' \<longrightarrow>
      dispatch pc sys line st = callHist pc sys (of_int (atoi ds)) line st \<and>
      fst (dispatch pc sys line (appends cmds)) \<noteq> [] \<and>
      ((\<forall>e \<in> set (ring_list st). commandID e \<noteq> of_int (atoi ds)) \<longrightarrow>
         dispatch pc sys line st =
           ([Printf (line @ '': event not found'' @ newline)], Go st)) \<and>
      ((\<exists>e \<in> set (ring_list st). commandID e = of_int (atoi ds)) \<longrightarrow>
         (\<exists>e \<in> set (ring_list st). commandID e = of_int (atoi ds) \<and>
            dispatch pc sys line st =
              (case pc (slot_text e) of
                 (cmdParsed, bg) \<Rightarrow> programCall sys cmdParsed (slot_text e) bg st))) \<and>
      (\<not> leading_number ds \<and> length cmds < 2 ^ 32 \<longrightarrow>
         atoi ds = 0 \<and>
         dispatch pc sys line (appends cmds) =
           ([Printf (line @ '': event not found'' @ newline)], Go (appends cmds))))"
proof -
  have a: "dispatch pc sys line st = ([], Go st)" if "fst (pc line) = [] \<and> line \<noteq> ''history''"
    using that by (simp add: dispatch_blank)
  have b: "dispatch tokenize sys line st = ([], Go st)" if "list_all isspace line"
    using that by (simp add: dispatch_blank tokenize_blank blank_not_history)
  have c: "dispatch pc sys line st = callHist pc sys (of_int (atoi ds)) line st"
    if "pc line = ((CHR ''!'' # ds) # rest, b) \<and> line \<noteq> ''history''" for st
    using that dispatch_bang [of pc line ds rest b sys st] by simp
  have s: "fst (dispatch pc sys line (appends cmds)) \<noteq> []"
    if "pc line = ((CHR ''!'' # ds) # rest, b) \<and> line \<noteq> ''history''"
    using c [OF that] by (simp add: callHist_nonempty)
  have m: "dispatch pc sys line st = ([Printf (line @ '': event not found'' @ newline)], Go st)"
    if "pc line = ((CHR ''!'' # ds) # rest, b) \<and> line \<noteq> ''history''"
      and "\<forall>e \<in> set (ring_list st). commandID e \<noteq> of_int (atoi ds)"
    using c [OF that(1)] callHist_absent [OF that(2)] by simp
  have f: "\<exists>e \<in> set (ring_list st). commandID e = of_int (atoi ds) \<and>
            dispatch pc sys line st =
              (case pc (slot_text e) of
                 (cmdParsed, bg) \<Rightarrow> programCall sys cmdParsed (slot_text e) bg st)"
    if p: "pc line = ((CHR ''!'' # ds) # rest, b) \<and> line \<noteq> ''history''"
      and q: "\<exists>e \<in> set (ring_list st). commandID e = of_int (atoi ds)"
  proof -
    from q have "find (\<lambda>e. commandID e = of_int (atoi ds)) (ring_list st) \<noteq> None"
      by (auto simp: find_None_iff)
    then obtain e where e: "find (\<lambda>e. commandID e = of_int (atoi ds)) (ring_list st) = Some e"
      by blast
    then have "e \<in> set (ring_list st)" "commandID e = of_int (atoi ds)"
      by (auto simp: find_Some_iff)
    moreover have "dispatch pc sys line st =
        (case pc (slot_text e) of
           (cmdParsed, bg) \<Rightarrow> programCall sys cmdParsed (slot_text e) bg st)"
      using c [OF p] by (simp add: callHist_find e)
    ultimately show ?thesis by blast
  qed
  have d: "atoi ds = 0 \<and> dispatch pc sys line (appends cmds) =
        ([Printf (line @ '': event not found'' @ newline)], Go (appends cmds))"
    if h: "pc line = ((CHR ''!'' # ds) # rest, b) \<and> line \<noteq> ''history''"
      and n: "\<not> leading_number ds \<and> length cmds < 2 ^ 32"
  proof -
    from n have z0: "atoi ds = 0" by (simp add: atoi_no_number)
    then have z: "(of_int (atoi ds) :: 32 word) = 0" by simp
    from n have "callHist pc sys 0 line (appends cmds) =
        ([Printf (line @ '': event not found'' @ newline)], Go (appends cmds))"
      by (intro callHist_not_stored) simp_all
    with c [OF h] z z0 show ?thesis by simp
  qed
  from a b c s m f d show ?thesis by blast
qed

theorem bang_and_blank_lines_witness:
  "list_all isspace ''  '' \<and>
   dispatch tokenize sys_found ''  '' (appends [''ls'']) = ([], Go (appends [''ls''])) \<and>
   tokenize ''!abc'' = ([''!abc''], False) \<and> length [''ls''] < 2 ^ 32 \<and>
   atoi ''abc'' = 0 \<and>
   dispatch tokenize sys_found ''!abc'' (appends [''ls'']) =
     ([Printf (''!abc: event not found'' @ newline)], Go (appends [''ls''])) \<and>
   fst (dispatch tokenize sys_found ''!abc'' (appends [''ls''])) \<noteq> [] \<and>
   tokenize ''!1abc'' = ([''!1abc''], False) \<and> atoi ''1abc'' = 1 \<and>
   dispatch tokenize sys_found ''!1abc'' (appends [''ls'']) =
     programCall sys_found [''ls''] ''ls'' False (appends [''ls''])"
proof -
  let ?st = "appends [''ls'']"
  have h: "list_all isspace ''  ''" "tokenize ''!abc'' = ([''!abc''], False)"
    "\<not> leading_number ''abc''" "length [''ls''] < 2 ^ 32" "''!abc'' \<noteq> ''history''"
    by (simp_all add: isspace_def tokenize_bangabc leading_number_def isdigit_def)
  have g: "tokenize ''!1abc'' = ([''!1abc''], False)" "atoi ''1abc'' = 1"
    "''!1abc'' \<noteq> ''history''" "tokenize ''ls'' = ([''ls''], False)"
    by (simp_all add: tokenize_def isspace_def atoi_def strtol_def isdigit_def)
  note t1 = bang_and_blank_lines [where pc = tokenize and line = "''  ''" and sys = sys_found
      and st = ?st and ds = "[]" and rest = "[]" and b = False and cmds = "[''ls'']"]
  note t2 = bang_and_blank_lines [where pc = tokenize and line = "''!abc''" and sys = sys_found
      and st = ?st and ds = "''abc''" and rest = "[]" and b = False and cmds = "[''ls'']"]
  note t3 = bang_and_blank_lines [where pc = tokenize and line = "''!1abc''" and sys = sys_found
      and st = ?st and ds = "''1abc''" and rest = "[]" and b = False and cmds = "[''ls'']"]
  have a: "dispatch tokenize sys_found ''  '' ?st = ([], Go ?st)"
    using t1 h(1) by blast
  have "atoi ''abc'' = 0 \<and> dispatch tokenize sys_found ''!abc'' ?st =
     ([Printf (''!abc'' @ '': event not found'' @ newline)], Go ?st)"
    using t2 h by blast
  then have b: "atoi ''abc'' = 0 \<and> dispatch tokenize sys_found ''!abc'' ?st =
     ([Printf (''!abc: event not found'' @ newline)], Go ?st)"
    by simp
  have c: "fst (dispatch tokenize sys_found ''!abc'' ?st) \<noteq> []"
    using t2 h by blast
  have rl: "ring_list ?st = [\<lparr>command = ''ls'', commandID = 1\<rparr>]" by (rule ring_list_one)
  have ex: "\<exists>e \<in> set (ring_list ?st). commandID e = of_int (atoi ''1abc'')"
    by (simp add: rl g(2))
  have "\<exists>e \<in> set (ring_list ?st). commandID e = of_int (atoi ''1abc'') \<and>
          dispatch tokenize sys_found ''!1abc'' ?st =
            (case tokenize (slot_text e) of
               (cmdParsed, bg) \<Rightarrow> programCall sys_found cmdParsed (slot_text e) bg ?st)"
    using t3 g(1,3) ex by blast
  then have d: "dispatch tokenize sys_found ''!1abc'' ?st =
      programCall sys_found [''ls''] ''ls'' False ?st"
    by (simp add: rl slot_text_def g(4))
  from h a b c g d show ?thesis by blast
qed





text \<open>
  C9, as stated, fails: with two terminated children the handler returns with one of
  them still unreaped; with a running child only it blocks; and two background lines
  install the handler twice.
\<close>

theorem handler_leaves_zombie:
  "handler 17 [Terminated, Terminated] = Returns [Terminated] \<and>
   handler 17 [Running] = Blocks \<and>
   fst (readCommand tokenize [(sys_found, ''sleep 1 &''), (sys_found, ''sleep 2 &'')] init_shell) =
     [SignalChld, Fork (Execvp [''sleep'', ''1'']), SignalChld, Fork (Execvp [''sleep'', ''2''])]"
  by (simp add: handler_def waitpid_any_def dispatch_def tokenize_def isspace_def
                programCall_def background_def sys_found_def split: prod.splits)

text \<open>
  C9, amended. Every call of \<^verbatim>\<open>background\<close> installs the handler before it forks. The
  handler is one blocking \<^verbatim>\<open>waitpid\<close> on any child, without a loop: when a terminated
  child is there it reaps exactly one and returns, leaving the other children as they
  were; without any child it returns at once; with running children only it blocks.
\<close>

theorem handler_reaps_one:
  "hd (fst (background sys cmdParsed cmdLine)) = SignalChld \<and>
   (Terminated \<in> set children \<longrightarrow>
      handler sigNum children = Returns (remove1 Terminated children) \<and>
      count_list (remove1 Terminated children) Terminated + 1 = count_list children Terminated \<and>
      count_list (remove1 Terminated children) Running = count_list children Running) \<and>
   (children = [] \<longrightarrow> handler sigNum children = Returns []) \<and>
   (Terminated \<notin> set children \<and> children \<noteq> [] \<longrightarrow> handler sigNum children = Blocks)"
proof -
  have a: "hd (fst (background sys cmdParsed cmdLine)) = SignalChld"
    by (simp add: background_def)
  have b: "handler sigNum children = Returns (remove1 Terminated children)"
    if "Terminated \<in> set children"
    using that by (simp add: handler_def waitpid_any_def)
  have c: "count_list (remove1 Terminated children) Terminated + 1 =
      count_list children Terminated" if "Terminated \<in> set children"
    using that by (rule count_remove1)
  have d: "count_list (remove1 Terminated children) Running = count_list children Running"
    by (rule count_remove1_other) simp
  have e: "handler sigNum children = Returns []" if "children = []"
    using that by (simp add: handler_def waitpid_any_def)
  have f: "handler sigNum children = Blocks" if "Terminated \<notin> set children \<and> children \<noteq> []"
    using that by (simp add: handler_def waitpid_any_def)
  from a b c d e f show ?thesis by blast
qed

theorem handler_reaps_one_witness:
  "hd (fst (background sys_found [''sleep'', ''1''] ''sleep 1 &'')) = SignalChld \<and>
   handler 17 [Running, Terminated, Terminated] = Returns [Running, Terminated] \<and>
   count_list [Running, Terminated] Terminated + 1 =
     count_list [Running, Terminated, Terminated] Terminated \<and>
   handler 17 [] = Returns [] \<and>
   handler 17 [Running] = Blocks"
  using handler_reaps_one [of sys_found "[''sleep'', ''1'']" "''sleep 1 &''"
          "[Running, Terminated, Terminated]" 17]
        handler_reaps_one [of sys_found "[''sleep'', ''1'']" "''sleep 1 &''" "[]" 17]
        handler_reaps_one [of sys_found "[''sleep'', ''1'']" "''sleep 1 &''" "[Running]" 17]
  by simp



end
